theory Spec2Isabelle
  imports Main "HOL-Library.Sublist"
begin

section \<open>Python strings\<close>

text \<open>
  The two routines verified here, \<^verbatim>\<open>_disambiguate_player\<close> of
  \<^verbatim>\<open>entity_resolver.py\<close> and the clarification branch of \<^verbatim>\<open>understand_node\<close> of
  \<^verbatim>\<open>graph.py\<close>, are Python. A Python \<^verbatim>\<open>str\<close> is modelled as a \<^typ>\<open>string\<close> whose
  characters are the code points below 256; the string methods below follow CPython on
  that range.
\<close>

definition isspace :: "char \<Rightarrow> bool" where
  \<comment> \<open>\<^verbatim>\<open>str.isspace\<close> on one character; also what \<^verbatim>\<open>strip()\<close>, \<^verbatim>\<open>split()\<close> and the
      regular expression class \<^verbatim>\<open>\s\<close> use.\<close>
  "isspace c \<longleftrightarrow>
     c \<in> {CHR 0x09, CHR 0x0A, CHR 0x0B, CHR 0x0C, CHR 0x0D, CHR 0x1C, CHR 0x1D, CHR 0x1E,
          CHR 0x1F, CHR 0x20, CHR 0x85, CHR 0xA0}"

definition lower_char :: "char \<Rightarrow> char" where
  "lower_char c =
     (let n = (of_char c :: nat)
      in if (65 \<le> n \<and> n \<le> 90) \<or> (192 \<le> n \<and> n \<le> 214) \<or> (216 \<le> n \<and> n \<le> 222)
         then char_of (n + 32) else c)"

definition lower :: "string \<Rightarrow> string" where
  \<comment> \<open>\<^verbatim>\<open>s.lower()\<close>\<close>
  "lower s = map lower_char s"

definition strip :: "string \<Rightarrow> string" where
  \<comment> \<open>\<^verbatim>\<open>s.strip()\<close>\<close>
  "strip s = rev (dropWhile isspace (rev (dropWhile isspace s)))"

fun split_acc :: "string \<Rightarrow> string \<Rightarrow> string list" where
  "split_acc cur [] = (if cur = [] then [] else [rev cur])"
| "split_acc cur (c # cs) =
     (if isspace c then (if cur = [] then split_acc [] cs else rev cur # split_acc [] cs)
      else split_acc (c # cur) cs)"

definition split :: "string \<Rightarrow> string list" where
  \<comment> \<open>\<^verbatim>\<open>s.split()\<close>: the maximal runs of non-whitespace characters\<close>
  "split s = split_acc [] s"

fun split_on :: "char \<Rightarrow> string \<Rightarrow> string list" where
  \<comment> \<open>\<^verbatim>\<open>s.split(d)\<close> for a one-character separator; the result is never empty\<close>
  "split_on d [] = [[]]"
| "split_on d (c # cs) =
     (if c = d then [] # split_on d cs
      else (case split_on d cs of [] \<Rightarrow> [[c]] | w # ws \<Rightarrow> (c # w) # ws))"

fun join :: "string \<Rightarrow> string list \<Rightarrow> string" where
  \<comment> \<open>\<^verbatim>\<open>sep.join(xs)\<close>\<close>
  "join sep [] = []"
| "join sep [x] = x"
| "join sep (x # y # zs) = x @ sep @ join sep (y # zs)"

function remove_all :: "string \<Rightarrow> string \<Rightarrow> string" where
  \<comment> \<open>\<^verbatim>\<open>s.replace(old, '')\<close>: the occurrences of \<open>old\<close>, found from the left without
      overlap, are deleted; an empty \<open>old\<close> leaves \<open>s\<close> as it is\<close>
  "remove_all old [] = []"
| "remove_all old (c # cs) =
     (if old \<noteq> [] \<and> prefix old (c # cs) then remove_all old (drop (length old) (c # cs))
      else c # remove_all old cs)"
  by pat_completeness auto
termination
  by (relation "measure (\<lambda>(old, s). length s)") (auto simp: neq_Nil_conv)

fun contains :: "string \<Rightarrow> string \<Rightarrow> bool" where
  \<comment> \<open>\<open>contains s sub\<close> is \<^verbatim>\<open>sub in s\<close>\<close>
  "contains [] sub \<longleftrightarrow> sub = []"
| "contains (c # cs) sub \<longleftrightarrow> prefix sub (c # cs) \<or> contains cs sub"

definition hex_digit :: "nat \<Rightarrow> char" where
  "hex_digit n = ''0123456789abcdef'' ! (n mod 16)"

definition isprintable :: "char \<Rightarrow> bool" where
  "isprintable c =
     (let n = (of_char c :: nat) in (32 \<le> n \<and> n < 127) \<or> (161 \<le> n \<and> n \<noteq> 173))"

definition repr_char :: "char \<Rightarrow> char \<Rightarrow> string" where
  "repr_char quote c =
     (if c = quote \<or> c = CHR 0x5C then [CHR 0x5C, c]
      else if c = CHR 0x09 then [CHR 0x5C, CHR ''t'']
      else if c = CHR 0x0A then [CHR 0x5C, CHR ''n'']
      else if c = CHR 0x0D then [CHR 0x5C, CHR ''r'']
      else if isprintable c then [c]
      else [CHR 0x5C, CHR ''x'', hex_digit (of_char c div 16), hex_digit (of_char c)])"

definition repr_str :: "string \<Rightarrow> string" where
  \<comment> \<open>\<^verbatim>\<open>repr(s)\<close>: single quotes, unless \<open>s\<close> has a single quote and no double quote\<close>
  "repr_str s =
     (let quote = (if CHR 0x27 \<in> set s \<and> CHR 0x22 \<notin> set s then CHR 0x22 else CHR 0x27)
      in quote # concat (map (repr_char quote) s) @ [quote])"

definition repr_list :: "string list \<Rightarrow> string" where
  \<comment> \<open>\<^verbatim>\<open>str(xs)\<close> of a list of strings, as an f-string formats it\<close>
  "repr_list xs = ''['' @ join '', '' (map repr_str xs) @ '']''"

section \<open>The activity-based disambiguator\<close>

text \<open>
  \<^verbatim>\<open>_disambiguate_player(cls, player_name, seasons)\<close>. The two database helpers it calls,
  \<^verbatim>\<open>query_players_like\<close> (the players whose name matches, in lookup order) and
  \<^verbatim>\<open>has_stats_in_season\<close> (whether a player has statistics in the given seasons), are
  parameters of the model. A player is its name: the routine joins the players into the
  clarification text. A raised exception is the left summand of the result, a returned
  player the right one; \<^verbatim>\<open>all_matches[0]\<close> on an empty list raises \<^verbatim>\<open>IndexError\<close>.
  When the lookup has exactly one row the routine returns \<^verbatim>\<open>single_match\<close>, a name that
  the routine binds nowhere: evaluating it raises \<^verbatim>\<open>NameError\<close>.
\<close>

datatype py_exception = NeedsClarification string | IndexError | NameError string

definition clarification_text :: "string \<Rightarrow> string list \<Rightarrow> string list \<Rightarrow> string" where
  "clarification_text player_name seasons active_players =
     ''Multiple players named '' @ [CHR 0x27] @ player_name @ [CHR 0x27]
       @ '' were active in '' @ repr_list seasons @ '': ''
       @ join '', '' active_players @ ''. Which player did you mean?''"

definition disambiguate_player ::
  "(string \<Rightarrow> string list) \<Rightarrow> (string \<Rightarrow> string list \<Rightarrow> bool) \<Rightarrow> string \<Rightarrow> string list
     \<Rightarrow> py_exception + string" where
  "disambiguate_player query_players_like has_stats_in_season player_name seasons =
     (let all_matches = query_players_like player_name
      in if length all_matches = 1 then Inl (NameError ''single_match'')
         else
           let active_players = filter (\<lambda>p. has_stats_in_season p seasons) all_matches
           in if length active_players = 1 then Inr (active_players ! 0)
              else if length active_players = 0 then
                (case all_matches of [] \<Rightarrow> Inl IndexError | p # _ \<Rightarrow> Inr p)
              else Inl (NeedsClarification
                          (clarification_text player_name seasons active_players)))"

section \<open>The clarification branch of \<^verbatim>\<open>understand_node\<close>\<close>

text \<open>
  The agent state and the messages of the conversation history are Python dictionaries;
  the model keeps the keys the branch reads or writes. A key the branch reads with a
  default (\<^verbatim>\<open>msg.get("entities", {})\<close>) is optional in the model; a list that the branch
  only tests for being non-empty and then copies is a list, empty when the key is absent.
  The members of the enumeration \<^verbatim>\<open>QueryIntent\<close> other than \<^verbatim>\<open>SIMPLE_STAT\<close> are not
  named by the routine; \<open>OTHER_INTENT\<close> stands for them.
\<close>

record entities_dict =
  players :: "string list"
  teams :: "string list"
  seasons :: "string list"
  metrics :: "string list"
  rounds :: "string list"

record message =
  role :: string
  content :: string
  msg_entities :: "entities_dict option"

datatype QueryIntent = SIMPLE_STAT | OTHER_INTENT string

record agent_state =
  conversation_history :: "message list"
  user_query :: string
  entities :: entities_dict
  intent :: QueryIntent
  requires_visualization :: bool
  needs_clarification :: bool

subsection \<open>Reading the candidates out of the clarification message\<close>

text \<open>
  \<^verbatim>\<open>re.search(r':\s*([^.]+?)\.\s*which', content, re.IGNORECASE)\<close>. A match starts at a
  colon. The group \<^verbatim>\<open>[^.]+?\<close> holds no period and is followed by one, so it ends at the
  first period after the colon, and the text after that period must be whitespace and
  then \<^verbatim>\<open>which\<close> in any case. The group starts after the whitespace that \<^verbatim>\<open>\s*\<close> takes:
  all there is, but one character less when nothing else is left before the period (the
  group is not empty). The search returns the match at the first colon that has one.
\<close>

definition which_follows :: "string \<Rightarrow> bool" where
  "which_follows s \<longleftrightarrow> prefix ''which'' (lower (dropWhile isspace s))"

definition match_at_colon :: "string \<Rightarrow> string option" where
  \<comment> \<open>the argument is the text after the colon, the result is \<^verbatim>\<open>match.group(1)\<close>\<close>
  "match_at_colon rest =
     (let body = takeWhile (\<lambda>c. c \<noteq> CHR ''.'') rest;
          after = dropWhile (\<lambda>c. c \<noteq> CHR ''.'') rest
      in if body \<noteq> [] \<and> after \<noteq> [] \<and> which_follows (tl after)
         then Some (drop (min (length (takeWhile isspace body)) (length body - 1)) body)
         else None)"

fun re_search :: "string \<Rightarrow> string option" where
  "re_search [] = None"
| "re_search (c # cs) =
     (if c = CHR '':'' then (case match_at_colon cs of Some g \<Rightarrow> Some g | None \<Rightarrow> re_search cs)
      else re_search cs)"

definition extract_candidates :: "string \<Rightarrow> string list option" where
  "extract_candidates msg_content =
     (if contains (lower msg_content) ''which player did you mean?''
         \<or> contains (lower msg_content) ''which team did you mean?''
      then (case re_search msg_content of
              None \<Rightarrow> None
            | Some candidates_str \<Rightarrow> Some (map strip (split_on CHR '','' candidates_str)))
      else None)"

subsection \<open>Matching the reply\<close>

definition fillers :: "string list" where
  "fillers = ['' please'', '' thanks'', '' pls'', '' thx'', '','', ''.'', '' ?'']"

definition user_response_cleaned :: "string \<Rightarrow> string" where
  \<comment> \<open>the argument is \<^verbatim>\<open>state['user_query']\<close>\<close>
  "user_response_cleaned query =
     strip (foldl (\<lambda>s filler. remove_all filler s) (strip (lower query)) fillers)"

fun potential_matches :: "string \<Rightarrow> string list \<Rightarrow> string list" where
  \<comment> \<open>the loop over \<open>candidates\<close>; the first argument is \<open>user_response_cleaned\<close>\<close>
  "potential_matches r [] = []"
| "potential_matches r (candidate # candidates) =
     (let candidate_lower = lower candidate
      in if r = candidate_lower then candidate # potential_matches r candidates
         else
           let user_words = split r; candidate_words = split candidate_lower
           in if length user_words = 1 then
                (if user_words ! 0 \<in> set candidate_words
                 then candidate # potential_matches r candidates
                 else potential_matches r candidates)
              else
                (if list_all (\<lambda>word. word \<in> set candidate_words) user_words
                 then candidate # potential_matches r candidates
                 else potential_matches r candidates))"

definition resolve_reply :: "string list \<Rightarrow> string \<Rightarrow> string option" where
  \<comment> \<open>the matched candidate, when exactly one candidate matches\<close>
  "resolve_reply candidates query =
     (case potential_matches (user_response_cleaned query) candidates of
        [matched_candidate] \<Rightarrow> Some matched_candidate
      | _ \<Rightarrow> None)"

subsection \<open>The branch\<close>

definition last_with_role :: "string \<Rightarrow> message list \<Rightarrow> message option" where
  \<comment> \<open>the first message of the given role in \<^verbatim>\<open>reversed(conversation_history)\<close>\<close>
  "last_with_role r history = List.find (\<lambda>msg. role msg = r) (rev history)"

definition copy_context :: "message list \<Rightarrow> entities_dict \<Rightarrow> entities_dict" where
  \<comment> \<open>seasons and metrics of the most recent user message, where it has any\<close>
  "copy_context history e =
     (case last_with_role ''user'' history of
        None \<Rightarrow> e
      | Some original_user_msg \<Rightarrow>
          (case msg_entities original_user_msg of
             None \<Rightarrow> e
           | Some original_entities \<Rightarrow>
               (let e1 = (if seasons original_entities \<noteq> []
                          then e\<lparr>seasons := seasons original_entities\<rparr> else e)
                in if metrics original_entities \<noteq> []
                   then e1\<lparr>metrics := metrics original_entities\<rparr> else e1)))"

definition understand_node :: "agent_state \<Rightarrow> agent_state option" where
  \<comment> \<open>\<open>Some\<close> is the early return of the branch with the state it returns; \<open>None\<close> is
      falling through to the entity extraction by the language model\<close>
  "understand_node state =
     (let history = conversation_history state
      in if history \<noteq> [] \<and> 2 \<le> length history then
           (case last_with_role ''assistant'' history of
              None \<Rightarrow> None
            | Some last_assistant_msg \<Rightarrow>
                (case extract_candidates (content last_assistant_msg) of
                   None \<Rightarrow> None
                 | Some candidates \<Rightarrow>
                     (case resolve_reply candidates (user_query state) of
                        None \<Rightarrow> None
                      | Some matched_candidate \<Rightarrow>
                          Some (state\<lparr>entities :=
                                        copy_context history
                                          \<lparr>players = [matched_candidate], teams = [],
                                           seasons = [], metrics = [], rounds = []\<rparr>,
                                      intent := SIMPLE_STAT,
                                      requires_visualization := False,
                                      needs_clarification := False\<rparr>))))
         else None)"

subsection \<open>The matching rule, as the specification words it\<close>

text \<open>
  The reply resolver of the specification (4.3, step 2) tests a candidate against the
  normalised reply by three rules: exact equality with the candidate's normalised name,
  a one-token reply whose token is a whole word of the name, and a reply all of whose
  tokens are whole words of the name. This predicate follows those words; it is compared
  with the loop of the code in \<open>potential_matches_filter\<close>.
\<close>

definition reply_matches :: "string \<Rightarrow> string \<Rightarrow> bool" where
  "reply_matches r candidate \<longleftrightarrow>
     r = lower candidate
     \<or> (case split r of [token] \<Rightarrow> token \<in> set (split (lower candidate)) | _ \<Rightarrow> False)
     \<or> list_all (\<lambda>token. token \<in> set (split (lower candidate))) (split r)"

section \<open>Example conversations\<close>

definition blank_entities :: entities_dict where
  "blank_entities = \<lparr>players = [], teams = [], seasons = [], metrics = [], rounds = []\<rparr>"

definition daicos_question :: message where
  "daicos_question =
     \<lparr>role = ''user'', content = ''How many goals did Daicos kick last year?'',
      msg_entities = Some \<lparr>players = [''Daicos''], teams = [], seasons = [''2025''],
                             metrics = [''goals''], rounds = [''all'']\<rparr>\<rparr>"

definition daicos_history :: "message list" where
  "daicos_history =
     [daicos_question,
      \<lparr>role = ''assistant'',
       content = clarification_text ''Daicos'' [''2025''] [''Josh Daicos'', ''Nick Daicos''],
       msg_entities = None\<rparr>]"

definition daicos_state :: "string \<Rightarrow> agent_state" where
  \<comment> \<open>the state in which the reply to the Daicos question arrives\<close>
  "daicos_state reply =
     \<lparr>conversation_history = daicos_history, user_query = reply, entities = blank_entities,
      intent = OTHER_INTENT ''TREND_ANALYSIS'', requires_visualization = True,
      needs_clarification = True\<rparr>"

definition daicos_resolved :: "string \<Rightarrow> agent_state" where
  "daicos_resolved reply =
     \<lparr>conversation_history = daicos_history, user_query = reply,
      entities = \<lparr>players = [''Nick Daicos''], teams = [], seasons = [''2025''],
                  metrics = [''goals''], rounds = []\<rparr>,
      intent = SIMPLE_STAT, requires_visualization = False, needs_clarification = False\<rparr>"

definition earlier_question :: message where
  "earlier_question =
     \<lparr>role = ''user'', content = ''How many disposals did Pendlebury have in 2019?'',
      msg_entities = Some \<lparr>players = [''Pendlebury''], teams = [], seasons = [''2019''],
                             metrics = [''disposals''], rounds = []\<rparr>\<rparr>"

definition earlier_answer :: message where
  "earlier_answer =
     \<lparr>role = ''assistant'', content = ''Scott Pendlebury had 622 disposals in 2019.'',
      msg_entities = None\<rparr>"

definition followup_state :: agent_state where
  \<comment> \<open>the Daicos question asked after an earlier exchange, and the reply to it\<close>
  "followup_state =
     \<lparr>conversation_history = [earlier_question, earlier_answer] @ daicos_history,
      user_query = ''Nick please'', entities = blank_entities,
      intent = OTHER_INTENT ''UNKNOWN'', requires_visualization = False,
      needs_clarification = True\<rparr>"

definition followup_resolved :: agent_state where
  "followup_resolved =
     followup_state
       \<lparr>entities := \<lparr>players = [''Nick Daicos''], teams = [], seasons = [''2025''],
                      metrics = [''goals''], rounds = []\<rparr>,
        intent := SIMPLE_STAT, requires_visualization := False, needs_clarification := False\<rparr>"

definition bulldogs_state :: agent_state where
  \<comment> \<open>a reply to a team clarification\<close>
  "bulldogs_state =
     \<lparr>conversation_history =
        [\<lparr>role = ''user'', content = ''How many wins did Western have in 2024?'',
          msg_entities = Some \<lparr>players = [], teams = [''Western''], seasons = [''2024''],
                                 metrics = [''wins''], rounds = []\<rparr>\<rparr>,
         \<lparr>role = ''assistant'',
          content = ''Multiple teams found: Western Bulldogs, Western Sydney. Which team did you mean?'',
          msg_entities = None\<rparr>],
      user_query = ''Bulldogs'', entities = blank_entities,
      intent = OTHER_INTENT ''TEAM_COMPARISON'', requires_visualization = True,
      needs_clarification = True\<rparr>"

definition bulldogs_resolved :: agent_state where
  "bulldogs_resolved =
     bulldogs_state
       \<lparr>entities := \<lparr>players = [''Western Bulldogs''], teams = [], seasons = [''2024''],
                      metrics = [''wins''], rounds = []\<rparr>,
        intent := SIMPLE_STAT, requires_visualization := False, needs_clarification := False\<rparr>"

definition kennedy_state :: agent_state where
  \<comment> \<open>a reply to the disambiguator's question about two players, one with an initial\<close>
  "kennedy_state =
     \<lparr>conversation_history =
        [\<lparr>role = ''user'', content = ''How many goals did Kennedy kick in 2021?'',
          msg_entities = Some \<lparr>players = [''Kennedy''], teams = [], seasons = [''2021''],
                                 metrics = [''goals''], rounds = []\<rparr>\<rparr>,
         \<lparr>role = ''assistant'',
          content = clarification_text ''Kennedy'' [''2021''] [''Josh J. Kennedy'', ''Matt Kennedy''],
          msg_entities = None\<rparr>],
      user_query = ''Matt'', entities = blank_entities,
      intent = OTHER_INTENT ''UNKNOWN'', requires_visualization = False,
      needs_clarification = False\<rparr>"

section \<open>Evaluation of the string functions\<close>

lemmas str_eval = lower_def lower_char_def char_of_def bit_0 strip_def isspace_def split_def

text \<open>
  The search on small inputs: the group without its leading whitespace, the one
  whitespace character kept when the group would be empty, a colon whose period is not
  followed by \<^verbatim>\<open>which\<close> skipped for a later one, and no match for an empty group.
\<close>

lemma re_search_examples:
  "re_search ''a:  b c . Which'' = Some ''b c ''"
  "re_search ''a: . which'' = Some '' ''"
  "re_search ''x: a. b: c.   WHICH one'' = Some ''c''"
  "re_search ''a:. which'' = None"
  "re_search ''a: b which'' = None"
  by (simp_all add: match_at_colon_def which_follows_def str_eval)

section \<open>Properties of the disambiguator\<close>

lemma single_candidate_name_error:
  "query_players_like player_name = [p] \<Longrightarrow>
   disambiguate_player query_players_like has_stats_in_season player_name ss
   = Inl (NameError ''single_match'')"
  by (simp add: disambiguate_player_def)

lemma zero_active_returns_first:
  assumes "2 \<le> length (query_players_like player_name)"
    and "filter (\<lambda>p. has_stats_in_season p ss) (query_players_like player_name) = []"
  shows "disambiguate_player query_players_like has_stats_in_season player_name ss
         = Inr (hd (query_players_like player_name))"
  using assms
  by (cases "query_players_like player_name")
     (auto simp: disambiguate_player_def Let_def split: if_splits)

text \<open>
  C4. When the lookup gives two or more candidates, seasons are requested, and exactly one
  candidate of the lookup has statistics in the requested seasons, the disambiguator
  returns that candidate.
\<close>

theorem tie_break_by_activity:
  assumes "2 \<le> length (query_players_like player_name)" and "ss \<noteq> []"
    and "filter (\<lambda>p. has_stats_in_season p ss) (query_players_like player_name) = [a]"
  shows "disambiguate_player query_players_like has_stats_in_season player_name ss = Inr a"
  using assms by (simp add: disambiguate_player_def Let_def)

theorem tie_break_by_activity_witness:
  "disambiguate_player (\<lambda>n. [''Gordon Dangerfield'', ''Patrick Dangerfield''])
     (\<lambda>p ss. p = ''Patrick Dangerfield'' \<and> ''2022'' \<in> set ss) ''Dangerfield'' [''2022'']
   = Inr ''Patrick Dangerfield''"
  using tie_break_by_activity
    [of "\<lambda>n. [''Gordon Dangerfield'', ''Patrick Dangerfield'']" "''Dangerfield''" "[''2022'']"
        "\<lambda>p ss. p = ''Patrick Dangerfield'' \<and> ''2022'' \<in> set ss" "''Patrick Dangerfield''"]
  by simp

text \<open>
  C5. The claim is that ambiguity reaches the caller as an ordinary return value. With
  Josh Daicos and Nick Daicos both active in 2025 the routine does not return: it raises
  \<^verbatim>\<open>NeedsClarification\<close> with the question as its message.
\<close>

theorem ambiguity_is_raised_counterexample:
  "disambiguate_player (\<lambda>n. [''Josh Daicos'', ''Nick Daicos'']) (\<lambda>p ss. True)
     ''Daicos'' [''2025'']
   = Inl (NeedsClarification
       (''Multiple players named '' @ [CHR 0x27] @ ''Daicos'' @ [CHR 0x27]
          @ '' were active in ['' @ [CHR 0x27] @ ''2025'' @ [CHR 0x27]
          @ '']: Josh Daicos, Nick Daicos. Which player did you mean?''))"
  by (simp add: disambiguate_player_def clarification_text_def repr_list_def repr_str_def
      repr_char_def isprintable_def Let_def)

text \<open>
  C5, as amended. Whenever two or more candidates of the lookup have statistics in the
  requested seasons, the routine raises \<^verbatim>\<open>NeedsClarification\<close>; the message is the question
  that lists exactly the active candidates, in lookup order.
\<close>

theorem ambiguity_is_raised:
  assumes "2 \<le> length (filter (\<lambda>p. has_stats_in_season p ss) (query_players_like player_name))"
  shows "disambiguate_player query_players_like has_stats_in_season player_name ss
         = Inl (NeedsClarification
                  (clarification_text player_name ss
                     (filter (\<lambda>p. has_stats_in_season p ss) (query_players_like player_name))))"
proof -
  let ?all = "query_players_like player_name"
  let ?active = "filter (\<lambda>p. has_stats_in_season p ss) ?all"
  have "length ?active \<le> length ?all"
    by (rule length_filter_le)
  with assms have "length ?all \<noteq> 1" and "length ?active \<noteq> 1" and "length ?active \<noteq> 0"
    by linarith+
  then show ?thesis
    by (simp only: disambiguate_player_def Let_def if_False)
qed

theorem ambiguity_is_raised_witness:
  "disambiguate_player (\<lambda>n. [''Josh Daicos'', ''Gordon Daicos'', ''Nick Daicos''])
     (\<lambda>p ss. p \<noteq> ''Gordon Daicos'') ''Daicos'' [''2025'']
   = Inl (NeedsClarification
            (clarification_text ''Daicos'' [''2025''] [''Josh Daicos'', ''Nick Daicos'']))"
  using ambiguity_is_raised
    [of "\<lambda>p ss. p \<noteq> ''Gordon Daicos''" "[''2025'']"
        "\<lambda>n. [''Josh Daicos'', ''Gordon Daicos'', ''Nick Daicos'']" "''Daicos''"]
  by simp

text \<open>
  C6. With two candidates and none of them active in the requested season the routine
  returns the first candidate of the lookup. What it returns is that candidate and
  nothing else: the same value as when the candidate is the only active one, so no
  warning and no low-confidence flag reaches the caller.
\<close>

theorem zero_active_fallback_unflagged:
  "disambiguate_player (\<lambda>n. [''Gordon Dangerfield'', ''Patrick Dangerfield''])
     (\<lambda>p ss. False) ''Dangerfield'' [''1990'']
   = Inr ''Gordon Dangerfield''
   \<and> disambiguate_player (\<lambda>n. [''Gordon Dangerfield'', ''Patrick Dangerfield''])
       (\<lambda>p ss. p = ''Gordon Dangerfield'') ''Dangerfield'' [''1990'']
     = Inr ''Gordon Dangerfield''"
  by (simp add: disambiguate_player_def)

text \<open>
  C7. When the lookup gives no candidate the routine reaches \<^verbatim>\<open>all_matches[0]\<close> on the
  empty list and fails with \<^verbatim>\<open>IndexError\<close>; it does not return an unresolved result.
\<close>

theorem no_candidates_index_error:
  "query_players_like player_name = [] \<Longrightarrow>
   disambiguate_player query_players_like has_stats_in_season player_name ss = Inl IndexError"
  by (simp add: disambiguate_player_def)

theorem no_candidates_index_error_witness:
  "disambiguate_player (\<lambda>n. []) (\<lambda>p ss. True) ''Zzyzx'' [''2022''] = Inl IndexError"
  using no_candidates_index_error [of "\<lambda>n. []" "''Zzyzx''" "\<lambda>p ss. True" "[''2022'']"]
  by simp

section \<open>Properties of the clarification branch\<close>

subsection \<open>The loop is the filter of the specification's rule\<close>

lemma potential_matches_Cons:
  "potential_matches r (c # cs) =
     (if reply_matches r c then c # potential_matches r cs else potential_matches r cs)"
proof (cases "split r")
  case Nil
  then show ?thesis by (simp add: reply_matches_def Let_def)
next
  case (Cons w ws)
  then show ?thesis by (cases ws) (simp_all add: reply_matches_def Let_def)
qed

lemma potential_matches_filter:
  "potential_matches r candidates = filter (reply_matches r) candidates"
  by (induction candidates)
     (simp_all add: potential_matches_Cons del: potential_matches.simps(2))

text \<open>
  C1. The resolver yields a candidate exactly when exactly one candidate of the list
  matches the normalised reply by the specification's rule, and that candidate is the
  one it yields; with no match or several it yields nothing. For the candidates Josh
  Daicos and Nick Daicos, the reply Nick resolves to Nick Daicos and the reply Daicos
  resolves to nothing.
\<close>

theorem reply_uniqueness:
  "(resolve_reply candidates q = Some c
      \<longleftrightarrow> filter (reply_matches (user_response_cleaned q)) candidates = [c])
   \<and> (resolve_reply candidates q = None
      \<longleftrightarrow> length (filter (reply_matches (user_response_cleaned q)) candidates) \<noteq> 1)
   \<and> resolve_reply [''Josh Daicos'', ''Nick Daicos''] ''Nick'' = Some ''Nick Daicos''
   \<and> resolve_reply [''Josh Daicos'', ''Nick Daicos''] ''Daicos'' = None"
proof (intro conjI)
  let ?ms = "filter (reply_matches (user_response_cleaned q)) candidates"
  show "resolve_reply candidates q = Some c \<longleftrightarrow> ?ms = [c]"
    by (simp add: resolve_reply_def potential_matches_filter split: list.splits)
  show "resolve_reply candidates q = None \<longleftrightarrow> length ?ms \<noteq> 1"
    by (simp add: resolve_reply_def potential_matches_filter split: list.splits)
  show "resolve_reply [''Josh Daicos'', ''Nick Daicos''] ''Nick'' = Some ''Nick Daicos''"
    by (simp add: resolve_reply_def user_response_cleaned_def fillers_def str_eval)
  show "resolve_reply [''Josh Daicos'', ''Nick Daicos''] ''Daicos'' = None"
    by (simp add: resolve_reply_def user_response_cleaned_def fillers_def str_eval)
qed

theorem reply_uniqueness_witness:
  "filter (reply_matches (user_response_cleaned ''josh daicos''))
     [''Josh Daicos'', ''Nick Daicos''] = [''Josh Daicos'']
   \<and> resolve_reply [''Josh Daicos'', ''Nick Daicos''] ''josh daicos'' = Some ''Josh Daicos''"
proof -
  have "filter (reply_matches (user_response_cleaned ''josh daicos''))
          [''Josh Daicos'', ''Nick Daicos''] = [''Josh Daicos'']"
    by (simp add: reply_matches_def user_response_cleaned_def fillers_def str_eval)
  with reply_uniqueness [of "[''Josh Daicos'', ''Nick Daicos'']" "''josh daicos''"
      "''Josh Daicos''"]
  show ?thesis by blast
qed

subsection \<open>What the branch returns\<close>

lemma understand_node_SomeD:
  assumes "understand_node state = Some state'"
  obtains a cs m where
    "last_with_role ''assistant'' (conversation_history state) = Some a"
    "extract_candidates (content a) = Some cs"
    "resolve_reply cs (user_query state) = Some m"
    "state' = state\<lparr>entities := copy_context (conversation_history state)
                                   \<lparr>players = [m], teams = [], seasons = [], metrics = [],
                                      rounds = []\<rparr>,
                     intent := SIMPLE_STAT, requires_visualization := False,
                     needs_clarification := False\<rparr>"
  using assms
  by (auto simp: understand_node_def Let_def split: if_splits option.splits)

lemma copy_context_frame:
  "players (copy_context h e) = players e \<and> teams (copy_context h e) = teams e
   \<and> rounds (copy_context h e) = rounds e"
  by (simp add: copy_context_def Let_def split: option.splits)

lemma last_user_of_exchange:
  assumes "role q = ''user''" and "role a = ''assistant''"
  shows "last_with_role ''user'' (pre @ [q, a]) = Some q"
  using assms by (simp add: last_with_role_def)

lemma copy_context_carry:
  assumes "last_with_role ''user'' h = Some q"
    and "seasons e = []" and "metrics e = []"
  shows "seasons (copy_context h e) = (case msg_entities q of None \<Rightarrow> [] | Some oe \<Rightarrow> seasons oe)
       \<and> metrics (copy_context h e) = (case msg_entities q of None \<Rightarrow> [] | Some oe \<Rightarrow> metrics oe)"
  using assms by (simp add: copy_context_def Let_def split: option.splits)

lemma daicos_nick_please:
  "understand_node (daicos_state ''Nick please'') = Some (daicos_resolved ''Nick please'')"
  by code_simp

lemma daicos_nick:
  "understand_node (daicos_state ''Nick'') = Some (daicos_resolved ''Nick'')"
  by code_simp

lemma bulldogs_reply: "understand_node bulldogs_state = Some bulldogs_resolved"
  by code_simp

lemma followup_reply: "understand_node followup_state = Some followup_resolved"
  by code_simp

text \<open>
  C2. The conversation history holds the turns before the reply. When it ends with the
  ambiguous query, a user message \<open>q\<close>, followed by the clarification question, an
  assistant message \<open>a\<close>, and the branch resolves the reply, then the seasons and the
  metrics of the state it returns are those recorded on \<open>q\<close> (none, when \<open>q\<close> carries no
  entities), whatever earlier turns the history holds.
\<close>

theorem context_carryover:
  assumes "understand_node state = Some state'"
    and "conversation_history state = pre @ [q, a]"
    and "role q = ''user''" and "role a = ''assistant''"
  shows "seasons (entities state')
           = (case msg_entities q of None \<Rightarrow> [] | Some original_entities \<Rightarrow> seasons original_entities)
       \<and> metrics (entities state')
           = (case msg_entities q of None \<Rightarrow> [] | Some original_entities \<Rightarrow> metrics original_entities)"
proof -
  from assms(1) obtain m where
    "state' = state\<lparr>entities := copy_context (conversation_history state)
                                   \<lparr>players = [m], teams = [], seasons = [], metrics = [],
                                      rounds = []\<rparr>,
                     intent := SIMPLE_STAT, requires_visualization := False,
                     needs_clarification := False\<rparr>"
    by (rule understand_node_SomeD)
  moreover have "last_with_role ''user'' (conversation_history state) = Some q"
    unfolding assms(2) using assms(3,4) by (rule last_user_of_exchange)
  ultimately show ?thesis
    using copy_context_carry [of "conversation_history state" q
        "\<lparr>players = [m], teams = [], seasons = [], metrics = [], rounds = []\<rparr>"]
    by simp
qed

theorem context_carryover_witness:
  "understand_node followup_state = Some followup_resolved
   \<and> seasons (entities followup_resolved) = [''2025'']
   \<and> metrics (entities followup_resolved) = [''goals'']
   \<and> msg_entities earlier_question
       = Some \<lparr>players = [''Pendlebury''], teams = [], seasons = [''2019''],
               metrics = [''disposals''], rounds = []\<rparr>"
proof -
  let ?a = "\<lparr>role = ''assistant'',
             content = clarification_text ''Daicos'' [''2025''] [''Josh Daicos'', ''Nick Daicos''],
             msg_entities = None\<rparr>"
  have h: "conversation_history followup_state
           = [earlier_question, earlier_answer] @ [daicos_question, ?a]"
    by (simp add: followup_state_def daicos_history_def)
  have q: "role daicos_question = ''user''"
    by (simp add: daicos_question_def)
  have a: "role ?a = ''assistant''"
    by simp
  from context_carryover [OF followup_reply h q a]
  have "seasons (entities followup_resolved) = [''2025'']"
    and "metrics (entities followup_resolved) = [''goals'']"
    by (simp_all add: daicos_question_def)
  with followup_reply show ?thesis
    by (simp add: earlier_question_def)
qed

text \<open>
  C9. When the branch resolves a reply, the candidate matched among those read from the
  last assistant message is the one entry of the players slot and the teams slot is
  empty, whichever of the two questions (which player, which team) that message asked.
\<close>

theorem reply_fills_players_slot:
  assumes "understand_node state = Some state'"
  shows "\<exists>a cs m. last_with_role ''assistant'' (conversation_history state) = Some a
           \<and> extract_candidates (content a) = Some cs
           \<and> resolve_reply cs (user_query state) = Some m
           \<and> players (entities state') = [m] \<and> teams (entities state') = []"
proof -
  from assms obtain a cs m where
    "last_with_role ''assistant'' (conversation_history state) = Some a"
    "extract_candidates (content a) = Some cs"
    "resolve_reply cs (user_query state) = Some m"
    "state' = state\<lparr>entities := copy_context (conversation_history state)
                                   \<lparr>players = [m], teams = [], seasons = [], metrics = [],
                                      rounds = []\<rparr>,
                     intent := SIMPLE_STAT, requires_visualization := False,
                     needs_clarification := False\<rparr>"
    by (rule understand_node_SomeD)
  then show ?thesis
    by (simp add: copy_context_frame)
qed

theorem reply_fills_players_slot_witness:
  "contains (lower (content (last (conversation_history bulldogs_state))))
     ''which team did you mean?''
   \<and> understand_node bulldogs_state = Some bulldogs_resolved
   \<and> players (entities bulldogs_resolved) = [''Western Bulldogs'']
   \<and> teams (entities bulldogs_resolved) = []"
proof -
  have q: "contains (lower (content (last (conversation_history bulldogs_state))))
             ''which team did you mean?''"
    by code_simp
  from reply_fills_players_slot [OF bulldogs_reply]
  have t: "teams (entities bulldogs_resolved) = []"
    by blast
  have p: "players (entities bulldogs_resolved) = [''Western Bulldogs'']"
    by (simp add: bulldogs_resolved_def)
  from q t p bulldogs_reply show ?thesis by simp
qed

text \<open>
  C10. When the branch resolves a reply, the state it returns has the intent
  \<^verbatim>\<open>SIMPLE_STAT\<close> and no visualisation, whatever intent and visualisation flag the state
  held before; the teams and rounds slots are empty, and the conversation history and
  the user query are untouched. Of the original query only seasons and metrics arrive
  (C2).
\<close>

theorem reply_sets_simple_stat:
  assumes "understand_node state = Some state'"
  shows "intent state' = SIMPLE_STAT \<and> requires_visualization state' = False
       \<and> understand_node (state\<lparr>intent := i, requires_visualization := v\<rparr>) = Some state'
       \<and> teams (entities state') = [] \<and> rounds (entities state') = []
       \<and> conversation_history state' = conversation_history state
       \<and> user_query state' = user_query state"
proof -
  from assms obtain m where
    s: "state' = state\<lparr>entities := copy_context (conversation_history state)
                                   \<lparr>players = [m], teams = [], seasons = [], metrics = [],
                                      rounds = []\<rparr>,
                     intent := SIMPLE_STAT, requires_visualization := False,
                     needs_clarification := False\<rparr>"
    by (rule understand_node_SomeD)
  have "understand_node (state\<lparr>intent := i, requires_visualization := v\<rparr>) = Some state'"
    using assms
    by (auto simp: understand_node_def Let_def split: if_splits option.splits)
  with s show ?thesis
    by (simp add: copy_context_frame)
qed

theorem reply_sets_simple_stat_witness:
  "intent (daicos_state ''Nick'') = OTHER_INTENT ''TREND_ANALYSIS''
   \<and> understand_node (daicos_state ''Nick'') = Some (daicos_resolved ''Nick'')
   \<and> intent (daicos_resolved ''Nick'') = SIMPLE_STAT
   \<and> requires_visualization (daicos_resolved ''Nick'') = False
   \<and> rounds (entities (daicos_resolved ''Nick'')) = []"
proof -
  from reply_sets_simple_stat [OF daicos_nick]
  have "intent (daicos_resolved ''Nick'') = SIMPLE_STAT"
    and "requires_visualization (daicos_resolved ''Nick'') = False"
    and "rounds (entities (daicos_resolved ''Nick'')) = []"
    by blast+
  with daicos_nick show ?thesis
    by (simp add: daicos_state_def)
qed

subsection \<open>Fillers after a name\<close>

text \<open>
  An occurrence of a filler cannot straddle the place where a string is followed by a
  filler or by whitespace: past its first character a filler holds no space, comma or
  period. So deleting a filler from the concatenation deletes it from the two parts.
\<close>

lemma prefix_append_boundary:
  assumes "tail = [] \<or> hd tail \<notin> set (tl old)" and "s \<noteq> []"
  shows "prefix old (s @ tail) \<longleftrightarrow> prefix old s"
proof
  assume "prefix old (s @ tail)"
  then consider "prefix old s" | us where "old = s @ us" "prefix us tail"
    by (auto simp: prefix_append)
  then show "prefix old s"
  proof cases
    case 1
    then show ?thesis .
  next
    case 2
    show ?thesis
    proof (cases us)
      case Nil
      with 2 show ?thesis by simp
    next
      case (Cons u us')
      with 2 obtain tail' where "tail = u # tail'"
        by (cases tail) auto
      moreover from 2 Cons \<open>s \<noteq> []\<close> have "u \<in> set (tl old)"
        by (cases s) auto
      ultimately show ?thesis using assms(1) by simp
    qed
  qed
next
  assume "prefix old s"
  then show "prefix old (s @ tail)" by simp
qed

lemma remove_all_append:
  "tail = [] \<or> hd tail \<notin> set (tl old) \<Longrightarrow>
   remove_all old (s @ tail) = remove_all old s @ remove_all old tail"
proof (induction old s rule: remove_all.induct)
  case (1 old)
  show ?case by simp
next
  case (2 old c cs)
  have p: "prefix old ((c # cs) @ tail) \<longleftrightarrow> prefix old (c # cs)"
    by (rule prefix_append_boundary [OF "2.prems"]) simp
  show ?case
  proof (cases "old \<noteq> [] \<and> prefix old (c # cs)")
    case True
    then have "length old \<le> length (c # cs)"
      by (auto dest: prefix_length_le)
    then have d: "drop (length old) ((c # cs) @ tail) = drop (length old) (c # cs) @ tail"
      by (simp only: drop_append) simp
    have "remove_all old ((c # cs) @ tail) = remove_all old (drop (length old) ((c # cs) @ tail))"
      using True p by simp
    also have "\<dots> = remove_all old (drop (length old) (c # cs)) @ remove_all old tail"
      unfolding d by (rule "2.IH"(1) [OF True "2.prems"])
    also have "remove_all old (drop (length old) (c # cs)) = remove_all old (c # cs)"
      using True by simp
    finally show ?thesis .
  next
    case False
    then have l: "remove_all old (c # cs @ tail) = c # remove_all old (cs @ tail)"
      using p by auto
    from False have r: "remove_all old (c # cs) = c # remove_all old cs"
      by auto
    show ?thesis
      by (simp only: l r "2.IH"(2) [OF False "2.prems"] append_Cons)
  qed
qed

lemma remove_filler_token:
  assumes "t \<in> set fillers" and "f \<in> set fillers"
  shows "remove_all f (t @ rest) = (if t = f then remove_all f rest else t @ remove_all f rest)"
  using assms by (auto simp: fillers_def)


lemma remove_all_tokens:
  assumes "set ts \<subseteq> set fillers" and "f \<in> set fillers"
  shows "remove_all f (concat ts) = concat (filter (\<lambda>t. t \<noteq> f) ts)"
  using assms(1)
proof (induction ts)
  case Nil
  show ?case by simp
next
  case (Cons t ts)
  then show ?case
    using remove_filler_token [of t f "concat ts"] assms(2) by auto
qed

lemma tokens_boundary:
  assumes "set ts \<subseteq> set fillers" and "f \<in> set fillers"
  shows "concat ts = [] \<or> hd (concat ts) \<notin> set (tl f)"
proof (cases ts)
  case Nil
  then show ?thesis by simp
next
  case (Cons t ts')
  with assms(1) have "t \<in> set fillers" by simp
  then have "t \<noteq> []" and "hd t \<notin> set (tl f)"
    using assms(2) by (auto simp: fillers_def)
  with Cons show ?thesis by simp
qed

lemma remove_all_append_tokens:
  assumes "set ts \<subseteq> set fillers" and "f \<in> set fillers"
  shows "remove_all f (s @ concat ts) = remove_all f s @ concat (filter (\<lambda>t. t \<noteq> f) ts)"
  by (simp add: remove_all_append [OF tokens_boundary [OF assms]] remove_all_tokens [OF assms])

lemma remove_fillers_append_tokens:
  "set fs \<subseteq> set fillers \<Longrightarrow> set ts \<subseteq> set fillers \<Longrightarrow>
   foldl (\<lambda>s filler. remove_all filler s) (s @ concat ts) fs
     = foldl (\<lambda>s filler. remove_all filler s) s fs @ concat (filter (\<lambda>t. t \<notin> set fs) ts)"
proof (induction fs arbitrary: s ts)
  case Nil
  show ?case by simp
next
  case (Cons f fs)
  from Cons.prems have f: "f \<in> set fillers" and fs: "set fs \<subseteq> set fillers"
    by simp_all
  have sub: "set (filter (\<lambda>t. t \<noteq> f) ts) \<subseteq> set fillers"
    using Cons.prems(2) by auto
  have "filter (\<lambda>t. t \<notin> set fs) (filter (\<lambda>t. t \<noteq> f) ts) = filter (\<lambda>t. t \<notin> set (f # fs)) ts"
    by (induction ts) auto
  then show ?case
    by (simp add: remove_all_append_tokens [OF Cons.prems(2) f] Cons.IH [OF fs sub])
qed

lemma isspace_lower_char: "isspace (lower_char c) \<longleftrightarrow> isspace c"
proof (cases "lower_char c = c")
  case True
  then show ?thesis by simp
next
  case False
  then have up: "(65 \<le> (of_char c :: nat) \<and> (of_char c :: nat) \<le> 90)
      \<or> (192 \<le> (of_char c :: nat) \<and> (of_char c :: nat) \<le> 214)
      \<or> (216 \<le> (of_char c :: nat) \<and> (of_char c :: nat) \<le> 222)"
    and lc: "lower_char c = char_of ((of_char c :: nat) + 32)"
    by (auto simp: lower_char_def Let_def split: if_splits)
  from up have "\<not> isspace c"
    by (auto simp: isspace_def)
  moreover from up have "\<not> isspace (char_of ((of_char c :: nat) + 32))"
    by (auto simp: isspace_def char_of_eq_iff take_bit_eq_mod)
  ultimately show ?thesis using lc by simp
qed

lemma filler_tail_nonspace:
  "f \<in> set fillers \<Longrightarrow> x \<in> set (tl f) \<Longrightarrow> \<not> isspace x"
  by (auto simp: fillers_def isspace_def)

lemma filler_last_nonspace:
  "f \<in> set fillers \<Longrightarrow> f \<noteq> [] \<and> \<not> isspace (last f)"
  by (auto simp: fillers_def isspace_def)

lemma filler_has_nonspace:
  "f \<in> set fillers \<Longrightarrow> \<exists>x \<in> set f. \<not> isspace x"
  using filler_last_nonspace [of f] last_in_set [of f] by blast

lemma remove_all_whitespace:
  assumes "f \<in> set fillers"
  shows "\<forall>c \<in> set ws. isspace c \<Longrightarrow> remove_all f ws = ws"
proof (induction ws)
  case Nil
  show ?case by simp
next
  case (Cons c cs)
  from filler_has_nonspace [OF assms] obtain x where "x \<in> set f" "\<not> isspace x"
    by blast
  have "\<not> prefix f (c # cs)"
  proof
    assume "prefix f (c # cs)"
    then have "set f \<subseteq> set (c # cs)"
      by (rule set_mono_prefix)
    with \<open>x \<in> set f\<close> Cons.prems have "isspace x"
      by blast
    with \<open>\<not> isspace x\<close> show False ..
  qed
  with Cons show ?case by simp
qed

lemma remove_all_append_whitespace:
  assumes "f \<in> set fillers" and "\<forall>c \<in> set ws. isspace c"
  shows "remove_all f (s @ ws) = remove_all f s @ ws"
proof -
  have "ws = [] \<or> hd ws \<notin> set (tl f)"
    using assms filler_tail_nonspace [of f "hd ws"] by (cases ws) auto
  then show ?thesis
    by (simp add: remove_all_append remove_all_whitespace [OF assms])
qed

lemma remove_fillers_append_whitespace:
  "set fs \<subseteq> set fillers \<Longrightarrow> \<forall>c \<in> set ws. isspace c \<Longrightarrow>
   foldl (\<lambda>s filler. remove_all filler s) (s @ ws) fs
     = foldl (\<lambda>s filler. remove_all filler s) s fs @ ws"
  by (induction fs arbitrary: s) (simp_all add: remove_all_append_whitespace)

lemma strip_append_whitespace:
  assumes "\<forall>c \<in> set ws. isspace c"
  shows "strip (x @ ws) = strip x"
proof (cases "\<forall>c \<in> set x. isspace c")
  case True
  with assms have "dropWhile isspace (x @ ws) = []" and "dropWhile isspace x = []"
    by simp_all
  then show ?thesis by (simp only: strip_def)
next
  case False
  then obtain c where "c \<in> set x" "\<not> isspace c" by blast
  then have "dropWhile isspace (x @ ws) = dropWhile isspace x @ ws"
    by simp
  moreover have "dropWhile isspace (rev ws @ rev (dropWhile isspace x))
      = dropWhile isspace (rev (dropWhile isspace x))"
    by (rule dropWhile_append2) (use assms in auto)
  ultimately show ?thesis by (simp add: strip_def)
qed

lemma strip_decompose:
  "\<exists>ws. (\<forall>c \<in> set ws. isspace c) \<and> dropWhile isspace s = strip s @ ws"
proof -
  let ?m = "dropWhile isspace s"
  let ?ws = "rev (takeWhile isspace (rev ?m))"
  have "rev (takeWhile isspace (rev ?m) @ dropWhile isspace (rev ?m)) = rev (rev ?m)"
    by (simp only: takeWhile_dropWhile_id)
  then have "?m = strip s @ ?ws"
    by (simp only: rev_append rev_rev_ident strip_def)
  moreover have "\<forall>c \<in> set ?ws. isspace c"
    by (auto dest: set_takeWhileD)
  ultimately show ?thesis by blast
qed

lemma strip_append_tokens:
  assumes "\<exists>c \<in> set a. \<not> isspace c" and "t \<noteq> []" and "\<not> isspace (last t)"
  shows "strip (a @ t) = dropWhile isspace a @ t"
proof -
  from assms(1) have "dropWhile isspace (a @ t) = dropWhile isspace a @ t"
    by auto
  moreover from assms(2,3) have "dropWhile isspace (rev t @ r) = rev t @ r" for r
    by (cases t rule: rev_cases) simp_all
  ultimately show ?thesis by (simp add: strip_def)
qed

lemma tokens_last_nonspace:
  "set ts \<subseteq> set fillers \<Longrightarrow> concat ts \<noteq> [] \<Longrightarrow> \<not> isspace (last (concat ts))"
proof (induction ts)
  case Nil
  then show ?case by simp
next
  case (Cons t ts)
  then show ?case
    using filler_last_nonspace [of t] by (cases "concat ts = []") simp_all
qed

lemma user_response_cleaned_fillers:
  assumes "\<exists>c \<in> set name. \<not> isspace c" and "\<forall>t \<in> set ts. lower t \<in> set fillers"
  shows "user_response_cleaned (name @ concat ts) = user_response_cleaned name"
proof -
  let ?clean = "\<lambda>s. foldl (\<lambda>s filler. remove_all filler s) s fillers"
  let ?a = "lower name"
  let ?ts = "map lower ts"
  let ?m = "dropWhile isspace ?a"
  have low: "lower (name @ concat ts) = ?a @ concat ?ts"
    by (simp add: lower_def [abs_def] map_concat)
  have sub: "set ?ts \<subseteq> set fillers"
    using assms(2) by auto
  have nonblank: "\<exists>c \<in> set ?a. \<not> isspace c"
    using assms(1) by (auto simp: lower_def isspace_lower_char)
  obtain ws where ws: "\<forall>c \<in> set ws. isspace c" and m: "?m = strip ?a @ ws"
    using strip_decompose [of ?a] by blast
  have right: "strip (?clean ?m) = user_response_cleaned name"
    by (simp add: m remove_fillers_append_whitespace [OF subset_refl ws]
        strip_append_whitespace [OF ws] user_response_cleaned_def)
  show ?thesis
  proof (cases "concat ?ts = []")
    case True
    show ?thesis
      by (simp only: user_response_cleaned_def low True append_Nil2)
  next
    case False
    have "strip (?a @ concat ?ts) = ?m @ concat ?ts"
      using nonblank False tokens_last_nonspace [OF sub False] by (rule strip_append_tokens)
    moreover have "?clean (?m @ concat ?ts) = ?clean ?m"
      using sub by (simp add: remove_fillers_append_tokens [OF subset_refl sub] filter_empty_conv subset_iff)
    ultimately have "user_response_cleaned (name @ concat ts) = strip (?clean ?m)"
      by (simp add: user_response_cleaned_def low)
    with right show ?thesis by simp
  qed
qed

text \<open>
  C8. A reply that is a name (a string with a character that is not whitespace) followed
  by fillers resolves as the name alone does. The fillers are the strings of the code's
  list, in any case: \<^verbatim>\<open>' please'\<close>, \<^verbatim>\<open>' thanks'\<close>, \<^verbatim>\<open>' pls'\<close>, \<^verbatim>\<open>' thx'\<close>, the
  comma, the period and \<^verbatim>\<open>' ?'\<close>. In particular the reply Nick please resolves as the
  reply Nick.
\<close>

theorem filler_tolerance:
  assumes "\<exists>c \<in> set name. \<not> isspace c" and "\<forall>t \<in> set ts. lower t \<in> set fillers"
  shows "resolve_reply candidates (name @ concat ts) = resolve_reply candidates name"
  by (simp add: resolve_reply_def user_response_cleaned_fillers [OF assms])

theorem filler_tolerance_witness:
  "resolve_reply [''Josh Daicos'', ''Nick Daicos''] ''Nick please''
     = resolve_reply [''Josh Daicos'', ''Nick Daicos''] ''Nick''
   \<and> resolve_reply [''Josh Daicos'', ''Nick Daicos''] ''Nick, Thanks.''
     = resolve_reply [''Josh Daicos'', ''Nick Daicos''] ''Nick''
   \<and> resolve_reply [''Josh Daicos'', ''Nick Daicos''] ''Nick'' = Some ''Nick Daicos''"
proof -
  have n: "\<exists>c \<in> set ''Nick''. \<not> isspace c"
    by (simp add: isspace_def)
  have p: "\<forall>t \<in> set ['' please'']. lower t \<in> set fillers"
    by (simp add: fillers_def str_eval)
  have t: "\<forall>t \<in> set ['','', '' Thanks'', ''.'']. lower t \<in> set fillers"
    by (simp add: fillers_def str_eval)
  have r: "resolve_reply [''Josh Daicos'', ''Nick Daicos''] ''Nick'' = Some ''Nick Daicos''"
    by (simp add: resolve_reply_def user_response_cleaned_def fillers_def str_eval)
  from filler_tolerance [OF n p, of "[''Josh Daicos'', ''Nick Daicos'']"]
    filler_tolerance [OF n t, of "[''Josh Daicos'', ''Nick Daicos'']"] r
  show ?thesis by simp
qed

subsection \<open>Reading the disambiguator's question back\<close>

lemma re_search_first_colon:
  "CHR '':'' \<notin> set pre \<Longrightarrow>
   re_search (pre @ CHR '':'' # rest)
     = (case match_at_colon rest of Some g \<Rightarrow> Some g | None \<Rightarrow> re_search rest)"
  by (induction pre) auto

lemma which_follows_question: "which_follows '' Which player did you mean?''"
  by (simp add: which_follows_def str_eval)

lemma match_at_colon_list:
  assumes "CHR ''.'' \<notin> set j" and "j \<noteq> []" and "\<not> isspace (hd j)"
  shows "match_at_colon ('' '' @ j @ ''. Which player did you mean?'') = Some j"
proof -
  let ?w = "'' Which player did you mean?''"
  let ?rest = "(CHR '' '' # j) @ CHR ''.'' # ?w"
  have body: "takeWhile (\<lambda>c. c \<noteq> CHR ''.'') ?rest = CHR '' '' # j"
    using assms(1) by (subst takeWhile_append2) auto
  have after: "dropWhile (\<lambda>c. c \<noteq> CHR ''.'') ?rest = CHR ''.'' # ?w"
    using assms(1) by (subst dropWhile_append2) auto
  have ws: "takeWhile isspace (CHR '' '' # j) = [CHR '' '']"
    using assms(2,3) by (cases j) (simp_all add: isspace_def)
  have "match_at_colon ?rest = Some j"
    unfolding match_at_colon_def body after Let_def ws
    using assms(2) which_follows_question by (cases j) simp_all
  then show ?thesis by simp
qed


lemma contains_append: "contains b sub \<Longrightarrow> contains (a @ b) sub"
  by (induction a) simp_all

lemma lower_append: "lower (a @ b) = lower a @ lower b"
  by (simp add: lower_def)

lemma question_detected:
  "contains (lower (a @ ''. Which player did you mean?'')) ''which player did you mean?''"
proof -
  have "contains (lower ''. Which player did you mean?'') ''which player did you mean?''"
    by (simp add: str_eval)
  then show ?thesis
    unfolding lower_append by (rule contains_append)
qed

lemma split_on_single: "d \<notin> set a \<Longrightarrow> split_on d a = [a]"
  by (induction a) auto

lemma split_on_append: "d \<notin> set a \<Longrightarrow> split_on d (a @ d # b) = a # split_on d b"
  by (induction a) auto

lemma split_on_join:
  "cs \<noteq> [] \<Longrightarrow> \<forall>c \<in> set cs. CHR '','' \<notin> set c \<Longrightarrow>
   split_on CHR '','' (join '', '' cs) = hd cs # map ((#) CHR '' '') (tl cs)"
proof (induction "'', ''" cs rule: join.induct)
  case 1
  then show ?case by simp
next
  case (2 x)
  then show ?case by (simp add: split_on_single)
next
  case (3 x y zs)
  then have "split_on CHR '','' (join '', '' (y # zs)) = y # map ((#) CHR '' '') zs"
    by simp
  with "3.prems" show ?case
    by (simp add: split_on_append)
qed

lemma strip_space_Cons: "strip (CHR '' '' # c) = strip c"
  by (simp add: strip_def isspace_def)

lemma stripped_hd:
  assumes "strip c = c" and "c \<noteq> []"
  shows "\<not> isspace (hd c)"
proof
  assume "isspace (hd c)"
  with assms(2) have "length (dropWhile isspace c) < length c"
    by (cases c) (simp_all add: le_imp_less_Suc length_dropWhile_le)
  moreover have "length (strip c) \<le> length (dropWhile isspace c)"
    using length_dropWhile_le [of isspace "rev (dropWhile isspace c)"]
    by (simp add: strip_def)
  ultimately show False using assms(1) by simp
qed

lemma set_join: "set (join sep xs) \<subseteq> set sep \<union> (\<Union>x \<in> set xs. set x)"
  by (induction sep xs rule: join.induct) auto

lemma hd_join: "xs \<noteq> [] \<Longrightarrow> hd xs \<noteq> [] \<Longrightarrow> join sep xs \<noteq> [] \<and> hd (join sep xs) = hd (hd xs)"
  by (induction sep xs rule: join.induct) auto

lemma hex_digit_not_colon: "hex_digit n \<noteq> CHR '':''"
proof -
  have "n mod 16 < length ''0123456789abcdef''" by simp
  then have "hex_digit n \<in> set ''0123456789abcdef''"
    unfolding hex_digit_def by (rule nth_mem)
  then show ?thesis by auto
qed

lemma repr_char_no_colon:
  "c \<noteq> CHR '':'' \<Longrightarrow> quote \<noteq> CHR '':'' \<Longrightarrow> CHR '':'' \<notin> set (repr_char quote c)"
  by (simp add: repr_char_def hex_digit_not_colon [THEN not_sym])

lemma repr_str_no_colon:
  assumes "CHR '':'' \<notin> set s"
  shows "CHR '':'' \<notin> set (repr_str s)"
proof -
  have "CHR '':'' \<notin> set (repr_char quote c)" if "c \<in> set s" and "quote \<noteq> CHR '':''"
    for quote c
    using that assms by (intro repr_char_no_colon) auto
  then show ?thesis
    by (auto simp: repr_str_def Let_def)
qed

lemma repr_list_no_colon:
  assumes "\<forall>s \<in> set ss. CHR '':'' \<notin> set s"
  shows "CHR '':'' \<notin> set (repr_list ss)"
proof -
  have "CHR '':'' \<notin> set (join '', '' (map repr_str ss))"
    using set_join [of "'', ''" "map repr_str ss"] assms repr_str_no_colon by auto
  then show ?thesis by (simp add: repr_list_def)
qed

lemma extract_candidates_clarification_text:
  assumes cs: "cs \<noteq> []"
    and names: "\<forall>c \<in> set cs. c \<noteq> [] \<and> strip c = c \<and> CHR '','' \<notin> set c \<and> CHR ''.'' \<notin> set c"
    and name: "CHR '':'' \<notin> set player_name"
    and ss: "\<forall>s \<in> set ss. CHR '':'' \<notin> set s"
  shows "extract_candidates (clarification_text player_name ss cs) = Some cs"
proof -
  let ?pre = "''Multiple players named '' @ [CHR 0x27] @ player_name @ [CHR 0x27]
                @ '' were active in '' @ repr_list ss"
  let ?j = "join '', '' cs"
  let ?q = "''. Which player did you mean?''"
  have msg: "clarification_text player_name ss cs = ?pre @ CHR '':'' # ('' '' @ ?j @ ?q)"
    by (simp add: clarification_text_def)
  have pre: "CHR '':'' \<notin> set ?pre"
    using name repr_list_no_colon [OF ss] by simp
  from cs names have "hd cs \<noteq> []" and "strip (hd cs) = hd cs"
    by simp_all
  then have j: "?j \<noteq> []" and hdj: "\<not> isspace (hd ?j)"
    using hd_join [OF cs, of "'', ''"] stripped_hd [of "hd cs"] by simp_all
  have dot: "CHR ''.'' \<notin> set ?j"
    using set_join [of "'', ''" cs] names by auto
  have search: "re_search (clarification_text player_name ss cs) = Some ?j"
    unfolding msg by (simp only: re_search_first_colon [OF pre] match_at_colon_list [OF dot j hdj] option.case)
  have asked: "contains (lower (clarification_text player_name ss cs)) ''which player did you mean?''"
    using question_detected [of "?pre @ CHR '':'' # '' '' @ ?j"] by (simp add: msg)
  have "map strip (split_on CHR '','' ?j) = map strip cs"
  proof -
    from names have "\<forall>c \<in> set cs. CHR '','' \<notin> set c" by blast
    from split_on_join [OF cs this] cs show ?thesis
      by (cases cs) (simp_all add: strip_space_Cons comp_def)
  qed
  also from names have "map strip cs = cs"
    by (simp add: map_idI)
  finally show ?thesis
    by (simp add: extract_candidates_def search asked)
qed

lemma daicos_josh:
  "understand_node (daicos_state ''Josh'')
   = Some ((daicos_resolved ''Josh'')
             \<lparr>entities := (entities (daicos_resolved ''Josh''))\<lparr>players := [''Josh Daicos'']\<rparr>\<rparr>)"
  by code_simp

text \<open>
  C3. The claim is that the resolver matches the reply against the structured candidate
  list the clarification was created from. The disambiguator's question for the
  candidates Josh J. Kennedy and Matt Kennedy is a counterexample: matched against that
  list, the reply Matt resolves to Matt Kennedy, but the branch reads nothing out of the
  question (the period of the initial ends the regular expression's group before the
  word that must follow it) and falls through.
\<close>

theorem structured_candidates_counterexample:
  "resolve_reply [''Josh J. Kennedy'', ''Matt Kennedy''] ''Matt'' = Some ''Matt Kennedy''
   \<and> extract_candidates
       (clarification_text ''Kennedy'' [''2021''] [''Josh J. Kennedy'', ''Matt Kennedy''])
     = None
   \<and> understand_node kennedy_state = None"
  by code_simp

text \<open>
  C3, as amended. The candidates the reply is matched against are read out of the text of
  the last assistant message; no candidate list is stored. When that message is the
  disambiguator's question for a non-empty list of names, each of them non-empty,
  without comma or period and without whitespace at either end, and the player name and
  the seasons hold no colon, the list read out of the text is the list the question was
  built from, and the branch returns what matching the reply against that list gives.
\<close>

theorem candidates_reparsed_from_text:
  assumes "cs \<noteq> []"
    and "\<forall>c \<in> set cs. c \<noteq> [] \<and> strip c = c \<and> CHR '','' \<notin> set c \<and> CHR ''.'' \<notin> set c"
    and "CHR '':'' \<notin> set player_name"
    and "\<forall>s \<in> set ss. CHR '':'' \<notin> set s"
    and "2 \<le> length (conversation_history state)"
    and "last_with_role ''assistant'' (conversation_history state) = Some a"
    and "content a = clarification_text player_name ss cs"
  shows "extract_candidates (content a) = Some cs
       \<and> understand_node state =
           (case resolve_reply cs (user_query state) of
              None \<Rightarrow> None
            | Some m \<Rightarrow>
                Some (state\<lparr>entities := copy_context (conversation_history state)
                                              \<lparr>players = [m], teams = [], seasons = [],
                                                 metrics = [], rounds = []\<rparr>,
                            intent := SIMPLE_STAT, requires_visualization := False,
                            needs_clarification := False\<rparr>))"
proof -
  have e: "extract_candidates (content a) = Some cs"
    unfolding assms(7) using assms(1-4) by (rule extract_candidates_clarification_text)
  from assms(5) have "conversation_history state \<noteq> []"
    by auto
  with assms(5,6) e show ?thesis
    by (simp add: understand_node_def Let_def)
qed

theorem candidates_reparsed_from_text_witness:
  "extract_candidates
     (clarification_text ''Daicos'' [''2025''] [''Josh Daicos'', ''Nick Daicos''])
   = Some [''Josh Daicos'', ''Nick Daicos'']
   \<and> understand_node (daicos_state ''Josh'')
     = Some ((daicos_resolved ''Josh'')
               \<lparr>entities := (entities (daicos_resolved ''Josh''))\<lparr>players := [''Josh Daicos'']\<rparr>\<rparr>)"
proof -
  let ?a = "\<lparr>role = ''assistant'',
             content = clarification_text ''Daicos'' [''2025''] [''Josh Daicos'', ''Nick Daicos''],
             msg_entities = None\<rparr>"
  have 1: "[''Josh Daicos'', ''Nick Daicos''] \<noteq> []"
    by simp
  have 2: "\<forall>c \<in> set [''Josh Daicos'', ''Nick Daicos''].
             c \<noteq> [] \<and> strip c = c \<and> CHR '','' \<notin> set c \<and> CHR ''.'' \<notin> set c"
    by (simp add: str_eval)
  have 3: "CHR '':'' \<notin> set ''Daicos''"
    by simp
  have 4: "\<forall>s \<in> set [''2025'']. CHR '':'' \<notin> set s"
    by simp
  have 5: "2 \<le> length (conversation_history (daicos_state ''Josh''))"
    by (simp add: daicos_state_def daicos_history_def)
  have 6: "last_with_role ''assistant'' (conversation_history (daicos_state ''Josh'')) = Some ?a"
    by (simp add: last_with_role_def daicos_state_def daicos_history_def daicos_question_def)
  have 7: "content ?a
           = clarification_text ''Daicos'' [''2025''] [''Josh Daicos'', ''Nick Daicos'']"
    by simp
  from candidates_reparsed_from_text [OF 1 2 3 4 5 6 7]
  have "extract_candidates (content ?a) = Some [''Josh Daicos'', ''Nick Daicos'']"
    by (rule conjunct1)
  with daicos_josh show ?thesis
    by simp
qed

end
